theory Spec2Isabelle
  imports Main
begin

section \<open>Values\<close>

text \<open>
  The scraper works on decoded JSON documents. A decoded value is \<^verbatim>\<open>None\<close>, a bool, an
  int, a str, a list or a dict with str keys. A str is kept as its UTF-8 bytes, a dict as
  the association list of its items in insertion order (keys distinct). Numbers with a
  fraction or an exponent (Python floats) are not part of the model.
\<close>

datatype json =
    JNull
  | JBool bool
  | JInt int
  | JStr string
  | JList "json list"
  | JDict "(string \<times> json) list"

text \<open>The exceptions the source names or lets through.\<close>

datatype exn =
    KeyError
  | TypeError
  | IndexError
  | ServerDisconnectedError
  | ContentTypeError
  | OtherError

text \<open>\<^verbatim>\<open>x[k]\<close> for a str key \<open>k\<close>: only a dict accepts it.\<close>

fun subscript :: "json \<Rightarrow> string \<Rightarrow> exn + json" where
  "subscript (JDict kvs) k = (case map_of kvs k of None \<Rightarrow> Inl KeyError | Some v \<Rightarrow> Inr v)"
| "subscript _ k = Inl TypeError"

text \<open>
  \<^verbatim>\<open>x[0]\<close>: the first element of a list, the first character of a str (a byte here; the
  source subscripts it by a str key at once, which raises for every str), no key of a dict
  decoded from JSON.
\<close>

fun subscript0 :: "json \<Rightarrow> exn + json" where
  "subscript0 (JList []) = Inl IndexError"
| "subscript0 (JList (v # vs)) = Inr v"
| "subscript0 (JStr []) = Inl IndexError"
| "subscript0 (JStr (c # cs)) = Inr (JStr [c])"
| "subscript0 (JDict kvs) = Inl KeyError"
| "subscript0 _ = Inl TypeError"

text \<open>\<^verbatim>\<open>for info in x\<close>: the elements of a list, the keys of a dict, the characters of a str.\<close>

fun iterate :: "json \<Rightarrow> exn + json list" where
  "iterate (JList vs) = Inr vs"
| "iterate (JDict kvs) = Inr (map (\<lambda>kv. JStr (fst kv)) kvs)"
| "iterate (JStr s) = Inr (map (\<lambda>c. JStr [c]) s)"
| "iterate _ = Inl TypeError"

section \<open>The category tree and the flat records\<close>

text \<open>
  A category of the catalogue is a dict read through the keys \<^verbatim>\<open>name\<close>, \<^verbatim>\<open>url\<close>,
  \<^verbatim>\<open>shard\<close>, \<^verbatim>\<open>query\<close>, \<^verbatim>\<open>id\<close> and \<^verbatim>\<open>childs\<close>, each of which may be absent
  (\<open>None\<close>); \<^verbatim>\<open>childs\<close>, when present, is the list of the sub-categories.
\<close>

datatype category =
  Category (c_name: "json option") (c_url: "json option") (c_shard: "json option")
    (c_query: "json option") (c_id: "json option") (c_childs: "category list option")

text \<open>\<^verbatim>\<open>category[k]\<close> on a key that may be absent.\<close>

definition getitem :: "json option \<Rightarrow> exn + json" where
  "getitem field = (case field of None \<Rightarrow> Inl KeyError | Some v \<Rightarrow> Inr v)"

text \<open>A record of the flattened catalogue is a dict, kept in the order of its keys.\<close>

type_synonym flat_record = "(string \<times> json) list"

text \<open>
  The state the traversal mutates: the list \<^verbatim>\<open>flattened_catalogue\<close> it appends to, and
  the log of the calls of \<^verbatim>\<open>node_json\<close> made so far (the category and the level passed),
  which stands for the history of the network.
\<close>

record state =
  flattened_catalogue :: "flat_record list"
  node_calls :: "(category \<times> int) list"

text \<open>
  The request of \<^verbatim>\<open>node_json\<close>: the URL is the fixed text around the two values
  interpolated from the category, so the request is given by these two values.
\<close>

datatype request = Request (req_shard: json) (req_query: json)

text \<open>
  \<^verbatim>\<open>aio_req\<close> is the network: the outcome of the request issued by the \<open>n\<close>-th call of
  \<^verbatim>\<open>node_json\<close> of a run is the decoded response or the exception raised.
\<close>

type_synonym network = "nat \<Rightarrow> request \<Rightarrow> exn + json"

section \<open>node_json\<close>

definition category_label :: string where
  "category_label =
     [CHR 0xD0, CHR 0x9A, CHR 0xD0, CHR 0xB0, CHR 0xD1, CHR 0x82, CHR 0xD0, CHR 0xB5,
      CHR 0xD0, CHR 0xB3, CHR 0xD0, CHR 0xBE, CHR 0xD1, CHR 0x80, CHR 0xD0, CHR 0xB8,
      CHR 0xD1, CHR 0x8F]"

text \<open>The f-string of lines 156-158 reads \<^verbatim>\<open>category['shard']\<close>, then \<^verbatim>\<open>category['query']\<close>.\<close>

definition url_loc :: "category \<Rightarrow> exn + request" where
  "url_loc category =
     (case getitem (c_shard category) of
        Inl e \<Rightarrow> Inl e
      | Inr sh \<Rightarrow>
          (case getitem (c_query category) of
             Inl e \<Rightarrow> Inl e
           | Inr q \<Rightarrow> Inr (Request sh q)))"

text \<open>The dict literal of lines 171-176.\<close>

definition facet_entry :: "category \<Rightarrow> int \<Rightarrow> json \<Rightarrow> exn + flat_record" where
  "facet_entry category level info =
     (case getitem (c_name category) of
        Inl e \<Rightarrow> Inl e
      | Inr pn \<Rightarrow>
          (case subscript info ''name'' of
             Inl e \<Rightarrow> Inl e
           | Inr n \<Rightarrow>
               (case subscript info ''id'' of
                  Inl e \<Rightarrow> Inl e
                | Inr i \<Rightarrow>
                    Inr [(''parent_name'', pn), (''name'', n), (''level'', JInt level),
                         (''id'', i)])))"

text \<open>The loop of lines 169-179: an item whose record raises is passed over.\<close>

fun append_items :: "category \<Rightarrow> int \<Rightarrow> json list \<Rightarrow> flat_record list \<Rightarrow> flat_record list" where
  "append_items category level [] fc = fc"
| "append_items category level (info # infos) fc =
     append_items category level infos
       (case facet_entry category level info of
          Inl e \<Rightarrow> fc
        | Inr r \<Rightarrow> fc @ [r])"

text \<open>\<^verbatim>\<open>response['data']['filters'][0]\<close>.\<close>

definition first_filter :: "json \<Rightarrow> exn + json" where
  "first_filter response =
     (case subscript response ''data'' of
        Inl e \<Rightarrow> Inl e
      | Inr d \<Rightarrow>
          (case subscript d ''filters'' of
             Inl e \<Rightarrow> Inl e
           | Inr fs \<Rightarrow> subscript0 fs))"

text \<open>The second \<^verbatim>\<open>try\<close> of \<^verbatim>\<open>node_json\<close> (lines 167-183); its bare \<^verbatim>\<open>except\<close> catches all.\<close>

definition read_filters ::
  "category \<Rightarrow> int \<Rightarrow> json \<Rightarrow> flat_record list \<Rightarrow> flat_record list" where
  "read_filters category level response fc =
     (case first_filter response of
        Inl e \<Rightarrow> fc
      | Inr f \<Rightarrow>
          (case subscript f ''name'' of
             Inl e \<Rightarrow> fc
           | Inr n \<Rightarrow>
               if n = JStr category_label then
                 (case subscript f ''items'' of
                    Inl e \<Rightarrow> fc
                  | Inr its \<Rightarrow>
                      (case iterate its of
                         Inl e \<Rightarrow> fc
                       | Inr infos \<Rightarrow> append_items category level infos fc))
               else fc))"

text \<open>
  \<^verbatim>\<open>node_json\<close> returns the exception it lets through, if any, and the state. Line 153
  reads \<^verbatim>\<open>category['name']\<close> outside any \<^verbatim>\<open>try\<close>; the first \<^verbatim>\<open>try\<close> catches
  \<^verbatim>\<open>ServerDisconnectedError\<close> and \<^verbatim>\<open>ContentTypeError\<close> only.
\<close>

definition node_json :: "network \<Rightarrow> category \<Rightarrow> int \<Rightarrow> state \<Rightarrow> exn option \<times> state" where
  "node_json aio_req category level s =
     (let s1 = s\<lparr>node_calls := node_calls s @ [(category, level)]\<rparr> in
      case getitem (c_name category) of
        Inl e \<Rightarrow> (Some e, s1)
      | Inr nm \<Rightarrow>
          (case url_loc category of
             Inl e \<Rightarrow> (Some e, s1)
           | Inr req \<Rightarrow>
               (case aio_req (length (node_calls s)) req of
                  Inl e \<Rightarrow>
                    if e = ServerDisconnectedError then (None, s1)
                    else if e = ContentTypeError then (None, s1)
                    else (Some e, s1)
                | Inr response \<Rightarrow>
                    (None, s1\<lparr>flattened_catalogue :=
                       read_filters category level response (flattened_catalogue s1)\<rparr>))))"

section \<open>traverse_json\<close>

text \<open>The dict literal of lines 114-121.\<close>

definition flat_entry :: "category \<Rightarrow> int \<Rightarrow> exn + flat_record" where
  "flat_entry category level =
     (case getitem (c_name category) of
        Inl e \<Rightarrow> Inl e
      | Inr n \<Rightarrow>
          (case getitem (c_url category) of
             Inl e \<Rightarrow> Inl e
           | Inr u \<Rightarrow>
               (case getitem (c_query category) of
                  Inl e \<Rightarrow> Inl e
                | Inr q \<Rightarrow>
                    (case getitem (c_id category) of
                       Inl e \<Rightarrow> Inl e
                     | Inr i \<Rightarrow>
                         Inr [(''name'', n), (''url'', u),
                              (''shard'', case c_shard category of
                                            Some sh \<Rightarrow> sh | None \<Rightarrow> JInt 99999),
                              (''query'', q), (''level'', JInt level), (''id'', i)]))))"

text \<open>
  The loop over \<^verbatim>\<open>parent_category\<close>, one category per step. \<^verbatim>\<open>level\<close> is raised on
  entry of the body and lowered again on each of its two exits. The \<^verbatim>\<open>except KeyError\<close>
  covers the dict literal only: an exception of the recursive call or of \<^verbatim>\<open>node_json\<close>
  leaves the loop. The result is that exception, if any, and the state reached. The calls
  of \<^verbatim>\<open>logging.info\<close> change nothing the walk reads and are left out.
\<close>

lemma size_childs: "c_childs category = Some childs \<Longrightarrow> size_list size childs < size category"
  by (cases category) simp

function traverse_json :: "network \<Rightarrow> category list \<Rightarrow> int \<Rightarrow> state \<Rightarrow> exn option \<times> state" where
  "traverse_json aio_req [] level s = (None, s)"
| "traverse_json aio_req (category # rest) level s =
     (let level = level + 1 in
      case flat_entry category level of
        Inl e \<Rightarrow>
          if e = KeyError then traverse_json aio_req rest (level - 1) s
          else (Some e, s)
      | Inr r \<Rightarrow>
          (let s1 = s\<lparr>flattened_catalogue := flattened_catalogue s @ [r]\<rparr> in
           case (case c_childs category of
                   Some childs \<Rightarrow> traverse_json aio_req childs level s1
                 | None \<Rightarrow> (None, s1)) of
             (Some e, s2) \<Rightarrow> (Some e, s2)
           | (None, s2) \<Rightarrow>
               (case (if c_childs category = None \<and> c_id category \<noteq> Some (JInt 130090)
                      then node_json aio_req category (level + 1) s2
                      else (None, s2)) of
                  (Some e, s3) \<Rightarrow> (Some e, s3)
                | (None, s3) \<Rightarrow> traverse_json aio_req rest (level + 1 - 1 - 1) s3)))"
  by pat_completeness auto
termination
  by (relation "measure (\<lambda>(aio_req, cats, level, s). size_list size cats)")
     (auto dest: size_childs)

text \<open>\<^verbatim>\<open>process_catalogue\<close>: the catalogue collected from level \<open>-1\<close>, or the exception.\<close>

definition process_catalogue :: "network \<Rightarrow> category list \<Rightarrow> exn + flat_record list" where
  "process_catalogue aio_req tree =
     (case traverse_json aio_req tree (- 1) \<lparr>flattened_catalogue = [], node_calls = []\<rparr> of
        (Some e, s) \<Rightarrow> Inl e
      | (None, s) \<Rightarrow> Inr (flattened_catalogue s))"

section \<open>download_current_catalogue\<close>

text \<open>
  The cache file, if it exists: \<^verbatim>\<open>int(path.getmtime(...))\<close> in seconds and the document
  it holds. A date is the number of its day; \<^verbatim>\<open>date.fromtimestamp\<close> is the local day of
  a timestamp, for a local time \<open>utc_offset\<close> seconds ahead of UTC.
\<close>

record cache_file =
  mtime :: int
  content :: json

definition fromtimestamp :: "int \<Rightarrow> int \<Rightarrow> int" where
  "fromtimestamp utc_offset t = (t + utc_offset) div 86400"

text \<open>
  \<^verbatim>\<open>download_current_catalogue\<close>, given the day \<^verbatim>\<open>self.run_date\<close>, the time \<open>now\<close> of a
  write, the outcome \<open>remote\<close> of the GET of the catalogue and the cache file \<open>local\<close>:
  whether the catalogue was downloaded and the cache file afterwards, or the exception of
  the request.
\<close>

definition download_current_catalogue ::
  "int \<Rightarrow> int \<Rightarrow> int \<Rightarrow> exn + json \<Rightarrow> cache_file option \<Rightarrow> exn + (bool \<times> cache_file option)" where
  "download_current_catalogue utc_offset run_date now remote local =
     (if (case local of
            None \<Rightarrow> True
          | Some f \<Rightarrow> fromtimestamp utc_offset (mtime f) > run_date)
      then (case remote of
              Inl e \<Rightarrow> Inl e
            | Inr response \<Rightarrow> Inr (True, Some \<lparr>mtime = now, content = response\<rparr>))
      else Inr (False, local))"

section \<open>The words of the specification\<close>

text \<open>A node is well formed when none of \<^verbatim>\<open>name\<close>, \<^verbatim>\<open>url\<close>, \<^verbatim>\<open>query\<close>, \<^verbatim>\<open>id\<close> is missing.\<close>

definition well_formed :: "category \<Rightarrow> bool" where
  "well_formed category =
     (c_name category \<noteq> None \<and> c_url category \<noteq> None \<and> c_query category \<noteq> None
      \<and> c_id category \<noteq> None)"

text \<open>
  The pre-order traversal of the well-formed nodes of a tree, each with its depth: a node,
  then its subtree, then its later siblings. The subtree of a malformed node is not
  visited, so a node counts when it and all its ancestors are well formed.
\<close>

function preorder :: "int \<Rightarrow> category list \<Rightarrow> (category \<times> int) list" where
  "preorder depth [] = []"
| "preorder depth (category # rest) =
     (if well_formed category
      then (category, depth) #
           (case c_childs category of
              Some childs \<Rightarrow> preorder (depth + 1) childs
            | None \<Rightarrow> [])
      else [])
     @ preorder depth rest"
  by pat_completeness auto
termination
  by (relation "measure (\<lambda>(depth, cats). size_list size cats)") (auto dest: size_childs)

text \<open>The pre-order traversal of all nodes of a tree, each with its depth.\<close>

function all_nodes :: "int \<Rightarrow> category list \<Rightarrow> (category \<times> int) list" where
  "all_nodes depth [] = []"
| "all_nodes depth (category # rest) =
     (category, depth) #
     (case c_childs category of
        Some childs \<Rightarrow> all_nodes (depth + 1) childs
      | None \<Rightarrow> [])
     @ all_nodes depth rest"
  by pat_completeness auto
termination
  by (relation "measure (\<lambda>(depth, cats). size_list size cats)") (auto dest: size_childs)

text \<open>An augmented record is one with the key \<^verbatim>\<open>parent_name\<close>.\<close>

definition augmented :: "flat_record \<Rightarrow> bool" where
  "augmented r = (map_of r ''parent_name'' \<noteq> None)"


text \<open>An item of a facet group has both \<^verbatim>\<open>id\<close> and \<^verbatim>\<open>name\<close> when it is a dict with both keys.\<close>

definition has_id_and_name :: "json \<Rightarrow> bool" where
  "has_id_and_name info =
     (case info of
        JDict kvs \<Rightarrow> map_of kvs ''id'' \<noteq> None \<and> map_of kvs ''name'' \<noteq> None
      | _ \<Rightarrow> False)"

definition item_field :: "json \<Rightarrow> string \<Rightarrow> json" where
  "item_field info k = (case subscript info k of Inl e \<Rightarrow> JNull | Inr v \<Rightarrow> v)"

text \<open>The augmented record of an item under a leaf of the given name.\<close>

definition facet_record :: "json \<Rightarrow> int \<Rightarrow> json \<Rightarrow> flat_record" where
  "facet_record parent_name level info =
     [(''parent_name'', parent_name), (''name'', item_field info ''name''),
      (''level'', JInt level), (''id'', item_field info ''id'')]"

text \<open>The label of the first facet group of a response, if there is one.\<close>

definition first_label :: "json \<Rightarrow> json option" where
  "first_label response =
     (case first_filter response of
        Inl e \<Rightarrow> None
      | Inr grp \<Rightarrow>
          (case subscript grp ''name'' of
             Inl e \<Rightarrow> None
           | Inr n \<Rightarrow> Some n))"

text \<open>The record of a well-formed node at its depth.\<close>

definition node_record :: "category \<times> int \<Rightarrow> flat_record" where
  "node_record cd = (case flat_entry (fst cd) (snd cd) of Inl e \<Rightarrow> [] | Inr r \<Rightarrow> r)"

text \<open>The non-augmented part of a catalogue.\<close>

definition plain :: "flat_record list \<Rightarrow> flat_record list" where
  "plain fc = filter (\<lambda>r. \<not> augmented r) fc"

text \<open>The calls of \<^verbatim>\<open>node_json\<close> of a run of \<^verbatim>\<open>process_catalogue\<close>, in order.\<close>

definition augmentation_calls :: "network \<Rightarrow> category list \<Rightarrow> (category \<times> int) list" where
  "augmentation_calls aio_req tree =
     node_calls (snd (traverse_json aio_req tree (- 1)
                        \<lparr>flattened_catalogue = [], node_calls = []\<rparr>))"

text \<open>
  The records that the \<open>n\<close>-th call of \<^verbatim>\<open>node_json\<close> of a run appends, on the given
  category and level: those of its response, none when the call raises or the request fails.
\<close>

definition call_facets :: "network \<Rightarrow> nat \<Rightarrow> category \<times> int \<Rightarrow> flat_record list" where
  "call_facets aio_req n call =
     (case getitem (c_name (fst call)) of
        Inl e \<Rightarrow> []
      | Inr nm \<Rightarrow>
          (case url_loc (fst call) of
             Inl e \<Rightarrow> []
           | Inr req \<Rightarrow>
               (case aio_req n req of
                  Inl e \<Rightarrow> []
                | Inr response \<Rightarrow> read_filters (fst call) (snd call) response [])))"

text \<open>The augmented records of the \<open>k\<close>-th call of a log of calls, none if there is no such call.\<close>

definition leaf_facets :: "network \<Rightarrow> nat \<Rightarrow> (category \<times> int) list \<Rightarrow> flat_record list" where
  "leaf_facets aio_req k calls =
     (if k < length calls then call_facets aio_req k (calls ! k) else [])"

section \<open>Auxiliary notions of the proofs\<close>

text \<open>The two steps of the loop body after the record of the node, named.\<close>

definition visit_childs :: "network \<Rightarrow> category \<Rightarrow> int \<Rightarrow> state \<Rightarrow> exn option \<times> state" where
  "visit_childs aio_req category level s =
     (case c_childs category of
        Some childs \<Rightarrow> traverse_json aio_req childs level s
      | None \<Rightarrow> (None, s))"

definition augment_leaf :: "network \<Rightarrow> category \<Rightarrow> int \<Rightarrow> state \<Rightarrow> exn option \<times> state" where
  "augment_leaf aio_req category level s =
     (if c_childs category = None \<and> c_id category \<noteq> Some (JInt 130090)
      then node_json aio_req category level s
      else (None, s))"

text \<open>The exception the \<open>n\<close>-th call of \<^verbatim>\<open>node_json\<close> lets through, if any.\<close>

definition call_exn :: "network \<Rightarrow> nat \<Rightarrow> category \<Rightarrow> exn option" where
  "call_exn aio_req n category =
     (case getitem (c_name category) of
        Inl e \<Rightarrow> Some e
      | Inr nm \<Rightarrow>
          (case url_loc category of
             Inl e \<Rightarrow> Some e
           | Inr req \<Rightarrow>
               (case aio_req n req of
                  Inl e \<Rightarrow>
                    if e = ServerDisconnectedError \<or> e = ContentTypeError then None
                    else Some e
                | Inr response \<Rightarrow> None)))"

text \<open>
  Two networks answer alike on a log of calls: the same outcome for the request of each
  call of the log.
\<close>

definition same_answers :: "network \<Rightarrow> network \<Rightarrow> (category \<times> int) list \<Rightarrow> bool" where
  "same_answers net1 net2 calls =
     (\<forall>i < length calls.
        case url_loc (fst (calls ! i)) of
          Inl e \<Rightarrow> True
        | Inr req \<Rightarrow> net2 i req = net1 i req)"

text \<open>
  The states of two runs, the second with a failure at call \<open>k\<close>: the same calls, and the
  same catalogue but for the augmented records of that call.
\<close>

definition isolated :: "nat \<Rightarrow> network \<Rightarrow> state \<Rightarrow> state \<Rightarrow> bool" where
  "isolated k net1 s1 s2 =
     (node_calls s2 = node_calls s1 \<and>
      (\<exists>pre post.
         flattened_catalogue s1 = pre @ leaf_facets net1 k (node_calls s1) @ post \<and>
         flattened_catalogue s2 = pre @ post \<and>
         (length (node_calls s1) \<le> k \<longrightarrow> post = [])))"

section \<open>Sample inputs\<close>

definition leaf_B :: category where
  "leaf_B =
     Category (Some (JStr ''B'')) (Some (JStr ''/b'')) (Some (JInt 2)) (Some (JStr ''q2''))
       (Some (JInt 2)) None"

definition node_A :: category where
  "node_A =
     Category (Some (JStr ''A'')) (Some (JStr ''/a'')) (Some (JInt 1)) (Some (JStr ''q1''))
       (Some (JInt 1)) (Some [leaf_B])"

definition no_shard_leaf :: category where
  "no_shard_leaf =
     Category (Some (JStr ''A'')) (Some (JStr ''/a'')) None (Some (JStr ''q''))
       (Some (JInt 1)) None"

definition empty_childs_node :: category where
  "empty_childs_node =
     Category (Some (JStr ''E'')) (Some (JStr ''/e'')) (Some (JInt 5)) (Some (JStr ''q5''))
       (Some (JInt 5)) (Some [])"

definition redirect_leaf :: category where
  "redirect_leaf =
     Category (Some (JStr ''R'')) (Some (JStr ''/r'')) (Some (JInt 7)) (Some (JStr ''q7''))
       (Some (JInt 130090)) None"

definition empty_state :: state where
  "empty_state = \<lparr>flattened_catalogue = [], node_calls = []\<rparr>"

definition no_facets :: network where
  "no_facets n req = Inr JNull"

text \<open>
  A response whose first facet group has the category label and four items: two with
  \<^verbatim>\<open>id\<close> and \<^verbatim>\<open>name\<close>, one without \<^verbatim>\<open>name\<close>, one that is no dict.
\<close>

definition facet_items :: "json list" where
  "facet_items =
     [JDict [(''id'', JInt 9), (''name'', JStr ''X'')],
      JDict [(''id'', JInt 10)],
      JStr ''zz'',
      JDict [(''id'', JInt 11), (''name'', JStr ''Y'')]]"

definition facet_group :: json where
  "facet_group = JDict [(''name'', JStr category_label), (''items'', JList facet_items)]"

definition facet_response :: json where
  "facet_response = JDict [(''data'', JDict [(''filters'', JList [facet_group])])]"

definition with_facets :: network where
  "with_facets n req = Inr facet_response"

definition record_A :: flat_record where
  "record_A =
     [(''name'', JStr ''A''), (''url'', JStr ''/a''), (''shard'', JInt 1),
      (''query'', JStr ''q1''), (''level'', JInt 0), (''id'', JInt 1)]"

definition record_B :: flat_record where
  "record_B =
     [(''name'', JStr ''B''), (''url'', JStr ''/b''), (''shard'', JInt 2),
      (''query'', JStr ''q2''), (''level'', JInt 1), (''id'', JInt 2)]"

definition record_X :: flat_record where
  "record_X =
     [(''parent_name'', JStr ''B''), (''name'', JStr ''X''), (''level'', JInt 2),
      (''id'', JInt 9)]"

definition record_Y :: flat_record where
  "record_Y =
     [(''parent_name'', JStr ''B''), (''name'', JStr ''Y''), (''level'', JInt 2),
      (''id'', JInt 11)]"

definition disconnected :: network where
  "disconnected n req = Inl ServerDisconnectedError"

definition record_R1 :: flat_record where
  "record_R1 =
     [(''name'', JStr ''R''), (''url'', JStr ''/r''), (''shard'', JInt 7),
      (''query'', JStr ''q7''), (''level'', JInt 1), (''id'', JInt 130090)]"

text \<open>A network that fails with a disconnection at the \<open>k\<close>-th call and else answers as given.\<close>

definition fail_at :: "nat \<Rightarrow> network \<Rightarrow> network" where
  "fail_at k aio_req i req = (if i = k then Inl ServerDisconnectedError else aio_req i req)"

definition leaf_C :: category where
  "leaf_C =
     Category (Some (JStr ''C'')) (Some (JStr ''/c'')) (Some (JInt 3)) (Some (JStr ''q3''))
       (Some (JInt 3)) None"

definition record_C :: flat_record where
  "record_C =
     [(''name'', JStr ''C''), (''url'', JStr ''/c''), (''shard'', JInt 3),
      (''query'', JStr ''q3''), (''level'', JInt 0), (''id'', JInt 3)]"

definition record_XC :: flat_record where
  "record_XC =
     [(''parent_name'', JStr ''C''), (''name'', JStr ''X''), (''level'', JInt 1),
      (''id'', JInt 9)]"

definition record_YC :: flat_record where
  "record_YC =
     [(''parent_name'', JStr ''C''), (''name'', JStr ''Y''), (''level'', JInt 1),
      (''id'', JInt 11)]"

section \<open>The loop body\<close>

lemma traverse_json_Cons:
  "traverse_json aio_req (category # rest) level s =
     (case flat_entry category (level + 1) of
        Inl e \<Rightarrow> if e = KeyError then traverse_json aio_req rest level s else (Some e, s)
      | Inr r \<Rightarrow>
          (case visit_childs aio_req category (level + 1)
                  (s\<lparr>flattened_catalogue := flattened_catalogue s @ [r]\<rparr>) of
             (Some e, s2) \<Rightarrow> (Some e, s2)
           | (None, s2) \<Rightarrow>
               (case augment_leaf aio_req category (level + 2) s2 of
                  (Some e, s3) \<Rightarrow> (Some e, s3)
                | (None, s3) \<Rightarrow> traverse_json aio_req rest level s3)))"
proof -
  have a: "level + 1 - 1 = level" "level + 2 - 1 - 1 = level" "level + 1 + 1 = level + 2"
    by simp_all
  show ?thesis
    by (simp only: traverse_json.simps Let_def visit_childs_def augment_leaf_def a)
qed

declare traverse_json.simps(2) [simp del]

lemma traverse_json_step:
  assumes "flat_entry category (level + 1) = Inr r"
    and "visit_childs aio_req category (level + 1)
           (s\<lparr>flattened_catalogue := flattened_catalogue s @ [r]\<rparr>) = (e2, s2)"
    and "augment_leaf aio_req category (level + 2) s2 = (e3, s3)"
  shows "traverse_json aio_req (category # rest) level s =
           (case e2 of
              Some e \<Rightarrow> (Some e, s2)
            | None \<Rightarrow>
                (case e3 of
                   Some e \<Rightarrow> (Some e, s3)
                 | None \<Rightarrow> traverse_json aio_req rest level s3))"
  using assms by (simp add: traverse_json_Cons split: option.splits)

text \<open>Induction over a list of categories: the sub-categories of the head, and the tail.\<close>

lemma category_list_induct [case_names Nil Cons]:
  assumes "P []"
    and "\<And>category rest.
           (\<And>childs. c_childs category = Some childs \<Longrightarrow> P childs) \<Longrightarrow> P rest \<Longrightarrow>
           P (category # rest)"
  shows "P tree"
proof (induction tree rule: measure_induct_rule [where f = "size_list size"])
  case (less tree)
  show ?case
  proof (cases tree)
    case Nil
    with assms(1) show ?thesis by simp
  next
    case (Cons category rest)
    have "P childs" if "c_childs category = Some childs" for childs
      using less [of childs] size_childs [OF that] Cons by simp
    moreover have "P rest" using less [of rest] Cons by simp
    ultimately show ?thesis using assms(2) Cons by simp
  qed
qed

text \<open>The definitions a run on a sample input unfolds.\<close>

lemmas run_defs =
  process_catalogue_def traverse_json_Cons visit_childs_def augment_leaf_def node_json_def
  url_loc_def flat_entry_def getitem_def read_filters_def first_filter_def facet_entry_def
  empty_state_def

lemmas sample_defs =
  fail_at_def leaf_C_def record_C_def record_XC_def record_YC_def
  disconnected_def record_R1_def leaf_B_def node_A_def no_shard_leaf_def empty_childs_node_def redirect_leaf_def
  no_facets_def with_facets_def facet_response_def facet_group_def facet_items_def
  record_A_def record_B_def record_X_def record_Y_def

section \<open>Well-formed and malformed nodes\<close>

lemma flat_entry_well_formed:
  "(\<exists>r. flat_entry category level = Inr r) = well_formed category"
  by (auto simp: flat_entry_def getitem_def well_formed_def split: option.splits)

lemma flat_entry_malformed:
  "\<not> well_formed category \<Longrightarrow> flat_entry category level = Inl KeyError"
  by (auto simp: flat_entry_def getitem_def well_formed_def split: option.splits)

lemma flat_entry_not_augmented: "flat_entry category level = Inr r \<Longrightarrow> \<not> augmented r"
  by (auto simp: flat_entry_def getitem_def augmented_def split: option.splits sum.splits)

lemma flat_entry_level:
  "flat_entry category level = Inr r \<Longrightarrow> map_of r ''level'' = Some (JInt level)"
  by (auto simp: flat_entry_def getitem_def split: option.splits sum.splits)

lemma flat_entry_name:
  "flat_entry category level = Inr r \<Longrightarrow> \<exists>nm. getitem (c_name category) = Inr nm"
  by (auto simp: flat_entry_def split: sum.splits)

lemma traverse_malformed:
  "\<not> well_formed category \<Longrightarrow>
   traverse_json aio_req (category # rest) level s = traverse_json aio_req rest level s"
  by (simp add: traverse_json_Cons flat_entry_malformed)

text \<open>
  A malformed node among its siblings: the walk is the walk of the list without it, whatever
  the node has below it.
\<close>

lemma traverse_malformed_absent:
  "\<not> well_formed category \<Longrightarrow>
   traverse_json aio_req (before @ category # after) level s =
   traverse_json aio_req (before @ after) level s"
proof (induction before arbitrary: s)
  case Nil
  then show ?case by (simp add: traverse_malformed)
next
  case (Cons c before)
  then show ?case
    by (simp add: traverse_json_Cons split: sum.splits option.splits prod.splits)
qed

section \<open>Nodes without sub-categories\<close>

text \<open>
  C10: a well-formed node whose \<^verbatim>\<open>childs\<close> key is present with an empty list yields
  exactly one record, its own, and \<^verbatim>\<open>node_json\<close> is not called for it: the log of the
  calls is unchanged.
\<close>

theorem empty_childs_one_record_no_augmentation:
  assumes "flat_entry category (level + 1) = Inr r" and "c_childs category = Some []"
  shows "traverse_json aio_req [category] level s =
           (None, s\<lparr>flattened_catalogue := flattened_catalogue s @ [r]\<rparr>)"
  using assms by (simp add: traverse_json_Cons visit_childs_def augment_leaf_def)

theorem empty_childs_one_record_no_augmentation_witness:
  "flat_entry empty_childs_node (- 1 + 1) =
     Inr [(''name'', JStr ''E''), (''url'', JStr ''/e''), (''shard'', JInt 5),
          (''query'', JStr ''q5''), (''level'', JInt 0), (''id'', JInt 5)]
   \<and> c_childs empty_childs_node = Some []
   \<and> traverse_json no_facets [empty_childs_node] (- 1) empty_state =
       (None, \<lparr>flattened_catalogue =
                  [[(''name'', JStr ''E''), (''url'', JStr ''/e''), (''shard'', JInt 5),
                    (''query'', JStr ''q5''), (''level'', JInt 0), (''id'', JInt 5)]],
               node_calls = []\<rparr>)"
proof -
  have h1: "flat_entry empty_childs_node (- 1 + 1) =
     Inr [(''name'', JStr ''E''), (''url'', JStr ''/e''), (''shard'', JInt 5),
          (''query'', JStr ''q5''), (''level'', JInt 0), (''id'', JInt 5)]"
    by (simp add: flat_entry_def getitem_def empty_childs_node_def)
  have h2: "c_childs empty_childs_node = Some []"
    by (simp add: empty_childs_node_def)
  show ?thesis
    using h1 h2
      empty_childs_one_record_no_augmentation [OF h1 h2, of no_facets empty_state]
    by (simp add: empty_state_def)
qed

text \<open>
  C6: a well-formed node without the key \<^verbatim>\<open>childs\<close> whose \<^verbatim>\<open>id\<close> is 130090 yields
  exactly one record, its own, and no call of \<^verbatim>\<open>node_json\<close>; every other well-formed
  node without the key \<^verbatim>\<open>childs\<close> has exactly one call of \<^verbatim>\<open>node_json\<close>, one level
  below its own.
\<close>

theorem redirect_id_not_augmented:
  assumes "flat_entry category (level + 1) = Inr r" and "c_childs category = None"
  shows "(c_id category = Some (JInt 130090) \<longrightarrow>
            traverse_json aio_req [category] level s =
              (None, s\<lparr>flattened_catalogue := flattened_catalogue s @ [r]\<rparr>))
       \<and> (c_id category \<noteq> Some (JInt 130090) \<longrightarrow>
            node_calls (snd (traverse_json aio_req [category] level s)) =
              node_calls s @ [(category, level + 2)])"
  using assms
  by (auto simp: traverse_json_Cons visit_childs_def augment_leaf_def node_json_def Let_def
      split: sum.splits prod.splits option.splits)

theorem redirect_id_not_augmented_witness:
  "flat_entry redirect_leaf (- 1 + 1) =
     Inr [(''name'', JStr ''R''), (''url'', JStr ''/r''), (''shard'', JInt 7),
          (''query'', JStr ''q7''), (''level'', JInt 0), (''id'', JInt 130090)]
   \<and> c_childs redirect_leaf = None
   \<and> c_id redirect_leaf = Some (JInt 130090)
   \<and> traverse_json no_facets [redirect_leaf] (- 1) empty_state =
       (None, \<lparr>flattened_catalogue =
                  [[(''name'', JStr ''R''), (''url'', JStr ''/r''), (''shard'', JInt 7),
                    (''query'', JStr ''q7''), (''level'', JInt 0), (''id'', JInt 130090)]],
               node_calls = []\<rparr>)
   \<and> flat_entry leaf_C (- 1 + 1) = Inr record_C
   \<and> c_childs leaf_C = None
   \<and> c_id leaf_C \<noteq> Some (JInt 130090)
   \<and> node_calls (snd (traverse_json no_facets [leaf_C] (- 1) empty_state)) = [(leaf_C, 1)]"
proof -
  have h1: "flat_entry redirect_leaf (- 1 + 1) =
     Inr [(''name'', JStr ''R''), (''url'', JStr ''/r''), (''shard'', JInt 7),
          (''query'', JStr ''q7''), (''level'', JInt 0), (''id'', JInt 130090)]"
    by (simp add: flat_entry_def getitem_def redirect_leaf_def)
  have h2: "c_childs redirect_leaf = None"
    by (simp add: redirect_leaf_def)
  have h3: "c_id redirect_leaf = Some (JInt 130090)"
    by (simp add: redirect_leaf_def)
  have g1: "flat_entry leaf_C (- 1 + 1) = Inr record_C"
    by (simp add: flat_entry_def getitem_def leaf_C_def record_C_def)
  have g2: "c_childs leaf_C = None" by (simp add: leaf_C_def)
  have g3: "c_id leaf_C \<noteq> Some (JInt 130090)" by (simp add: leaf_C_def)
  show ?thesis
    using h1 h2 h3 g1 g2 g3
      redirect_id_not_augmented [OF h1 h2, of no_facets empty_state]
      redirect_id_not_augmented [OF g1 g2, of no_facets empty_state]
    by (simp add: empty_state_def)
qed

section \<open>A leaf without \<^verbatim>\<open>shard\<close>\<close>

text \<open>
  C3: a node that lacks one of \<^verbatim>\<open>name\<close>, \<^verbatim>\<open>url\<close>, \<^verbatim>\<open>query\<close>, \<^verbatim>\<open>id\<close> yields no
  record, its subtree is not visited and its siblings are processed as if it were absent
  (\<open>traverse_malformed_absent\<close> above); a node that lacks \<^verbatim>\<open>shard\<close> only is not to be
  skipped, 99999 standing for its shard. The last part fails for a node without
  \<^verbatim>\<open>childs\<close>: \<^verbatim>\<open>traverse_json\<close> puts 99999 in its record, but \<^verbatim>\<open>node_json\<close> then reads
  \<^verbatim>\<open>category['shard']\<close> unguarded; the \<^verbatim>\<open>KeyError\<close> leaves \<^verbatim>\<open>process_catalogue\<close> and the
  run yields no catalogue, whatever the network answers.
\<close>

theorem no_shard_leaf_aborts_run:
  "process_catalogue aio_req [no_shard_leaf] = Inl KeyError"
  by (simp add: run_defs no_shard_leaf_def)

text \<open>
  The same for every well-formed node that has neither \<^verbatim>\<open>childs\<close> nor \<^verbatim>\<open>shard\<close> and
  is not the redirect: its record is appended, and the walk then ends with \<^verbatim>\<open>KeyError\<close>
  before any of its later siblings is seen.
\<close>

lemma no_shard_leaf_raises:
  assumes "flat_entry category (level + 1) = Inr r"
    and "c_childs category = None"
    and "c_id category \<noteq> Some (JInt 130090)"
    and "c_shard category = None"
  shows "traverse_json aio_req (category # rest) level s =
           (Some KeyError,
            s\<lparr>flattened_catalogue := flattened_catalogue s @ [r],
              node_calls := node_calls s @ [(category, level + 2)]\<rparr>)"
proof -
  from assms(1) obtain nm where "getitem (c_name category) = Inr nm"
    by (auto dest: flat_entry_name)
  with assms show ?thesis
    by (simp add: traverse_json_Cons visit_childs_def augment_leaf_def node_json_def
        url_loc_def getitem_def Let_def)
qed

text \<open>With \<^verbatim>\<open>childs\<close>, or with the redirect id, the missing \<^verbatim>\<open>shard\<close> is harmless.\<close>

lemma no_shard_node_record:
  "c_shard category = None \<Longrightarrow> flat_entry category level = Inr r \<Longrightarrow>
   map_of r ''shard'' = Some (JInt 99999)"
  by (auto simp: flat_entry_def getitem_def split: option.splits sum.splits)

section \<open>The cache of the catalogue\<close>

text \<open>
  C9: the catalogue is to be downloaded exactly when the cache file is absent or older than
  the day of the run, so that a cache written on an earlier day is refreshed. The test of
  lines 62-63 is \<^verbatim>\<open>>\<close>: a cache file written the day before the run (day 19999, run on
  day 20000) is kept and nothing is downloaded.
\<close>

theorem stale_cache_not_refreshed:
  "download_current_catalogue 0 20000 (20000 * 86400 + 60) (Inr (JList []))
     (Some \<lparr>mtime = 19999 * 86400 + 3600, content = JNull\<rparr>) =
   Inr (False, Some \<lparr>mtime = 19999 * 86400 + 3600, content = JNull\<rparr>)"
  by (simp add: download_current_catalogue_def fromtimestamp_def)

text \<open>
  In general an existing cache file is replaced only when its day is after the day of the
  run; a missing one is downloaded.
\<close>

lemma existing_cache_kept:
  "fromtimestamp utc_offset (mtime f) \<le> run_date \<Longrightarrow>
   download_current_catalogue utc_offset run_date now remote (Some f) = Inr (False, Some f)"
  by (simp add: download_current_catalogue_def)

lemma missing_cache_downloaded:
  "download_current_catalogue utc_offset run_date now (Inr response) None =
     Inr (True, Some \<lparr>mtime = now, content = response\<rparr>)"
  by (simp add: download_current_catalogue_def)

section \<open>The records of node_json\<close>

lemma facet_entry_item:
  "c_name category = Some pn \<Longrightarrow>
   (has_id_and_name info \<longrightarrow>
      facet_entry category level info = Inr (facet_record pn level info)) \<and>
   (\<not> has_id_and_name info \<longrightarrow> (\<exists>e. facet_entry category level info = Inl e))"
  by (cases info)
     (auto simp: facet_entry_def getitem_def has_id_and_name_def facet_record_def item_field_def
           split: option.splits)

lemma append_items_filter:
  "c_name category = Some pn \<Longrightarrow>
   append_items category level infos fc =
     fc @ map (facet_record pn level) (filter has_id_and_name infos)"
proof (induction infos arbitrary: fc)
  case Nil
  then show ?case by simp
next
  case (Cons info infos)
  show ?case
  proof (cases "has_id_and_name info")
    case True
    with Cons.prems facet_entry_item [of category pn info level]
    have "facet_entry category level info = Inr (facet_record pn level info)" by simp
    with True Cons.IH [OF Cons.prems] show ?thesis by simp
  next
    case False
    with Cons.prems facet_entry_item [of category pn info level]
    obtain e where "facet_entry category level info = Inl e" by blast
    with False Cons.IH [OF Cons.prems] show ?thesis by simp
  qed
qed

lemma read_filters_none:
  "first_label response \<noteq> Some (JStr category_label) \<Longrightarrow>
   read_filters category level response fc = fc"
  by (auto simp: read_filters_def first_label_def split: sum.splits)

lemma read_filters_items:
  assumes "c_name category = Some pn"
    and "first_filter response = Inr grp"
    and "subscript grp ''name'' = Inr (JStr category_label)"
    and "subscript grp ''items'' = Inr its"
    and "iterate its = Inr infos"
  shows "read_filters category level response fc =
           fc @ map (facet_record pn level) (filter has_id_and_name infos)"
  using assms by (simp add: read_filters_def append_items_filter)

text \<open>
  C4: when the request of a leaf succeeds and the first facet group of the response has the
  category label, the walk appends, after the record of the leaf and in the order of the
  items, one record for each item that has both \<^verbatim>\<open>id\<close> and \<^verbatim>\<open>name\<close>; the other
  items are passed over one by one. Each such record has \<^verbatim>\<open>parent_name\<close> equal to the
  name of the leaf and \<^verbatim>\<open>level\<close> one above the level of the leaf, and has none of the
  keys \<^verbatim>\<open>url\<close>, \<^verbatim>\<open>shard\<close>, \<^verbatim>\<open>query\<close>.
\<close>

theorem category_facet_items_appended:
  assumes "flat_entry leaf (level + 1) = Inr own"
    and "c_childs leaf = None"
    and "c_id leaf \<noteq> Some (JInt 130090)"
    and "c_name leaf = Some pn"
    and "url_loc leaf = Inr req"
    and "aio_req (length (node_calls s)) req = Inr response"
    and "first_filter response = Inr grp"
    and "subscript grp ''name'' = Inr (JStr category_label)"
    and "subscript grp ''items'' = Inr its"
    and "iterate its = Inr infos"
  shows "traverse_json aio_req [leaf] level s =
           (None, s\<lparr>flattened_catalogue :=
                      flattened_catalogue s @
                      own # map (facet_record pn (level + 2)) (filter has_id_and_name infos),
                    node_calls := node_calls s @ [(leaf, level + 2)]\<rparr>)
       \<and> map_of own ''level'' = Some (JInt (level + 1))
       \<and> (\<forall>info. map_of (facet_record pn (level + 2) info) ''parent_name'' = Some pn
              \<and> map_of (facet_record pn (level + 2) info) ''level'' = Some (JInt (level + 1 + 1))
              \<and> map_of (facet_record pn (level + 2) info) ''url'' = None
              \<and> map_of (facet_record pn (level + 2) info) ''shard'' = None
              \<and> map_of (facet_record pn (level + 2) info) ''query'' = None)"
proof -
  have "traverse_json aio_req [leaf] level s =
           (None, s\<lparr>flattened_catalogue :=
                      flattened_catalogue s @
                      own # map (facet_record pn (level + 2)) (filter has_id_and_name infos),
                    node_calls := node_calls s @ [(leaf, level + 2)]\<rparr>)"
    using assms
    by (simp add: traverse_json_Cons visit_childs_def augment_leaf_def node_json_def
        getitem_def Let_def read_filters_items [where pn = pn and infos = infos])
  moreover have "map_of own ''level'' = Some (JInt (level + 1))"
    using assms(1) by (rule flat_entry_level)
  ultimately show ?thesis
    by (simp add: facet_record_def)
qed

theorem category_facet_items_appended_witness:
  "flat_entry leaf_B (0 + 1) = Inr record_B
   \<and> c_childs leaf_B = None
   \<and> c_id leaf_B \<noteq> Some (JInt 130090)
   \<and> c_name leaf_B = Some (JStr ''B'')
   \<and> url_loc leaf_B = Inr (Request (JInt 2) (JStr ''q2''))
   \<and> with_facets (length (node_calls empty_state)) (Request (JInt 2) (JStr ''q2'')) =
       Inr facet_response
   \<and> first_filter facet_response = Inr facet_group
   \<and> subscript facet_group ''name'' = Inr (JStr category_label)
   \<and> subscript facet_group ''items'' = Inr (JList facet_items)
   \<and> iterate (JList facet_items) = Inr facet_items
   \<and> traverse_json with_facets [leaf_B] 0 empty_state =
       (None, \<lparr>flattened_catalogue = [record_B, record_X, record_Y],
               node_calls = [(leaf_B, 2)]\<rparr>)"
proof -
  have h1: "flat_entry leaf_B (0 + 1) = Inr record_B"
    by (simp add: flat_entry_def getitem_def leaf_B_def record_B_def)
  have h2: "c_childs leaf_B = None" by (simp add: leaf_B_def)
  have h3: "c_id leaf_B \<noteq> Some (JInt 130090)" by (simp add: leaf_B_def)
  have h4: "c_name leaf_B = Some (JStr ''B'')" by (simp add: leaf_B_def)
  have h5: "url_loc leaf_B = Inr (Request (JInt 2) (JStr ''q2''))"
    by (simp add: url_loc_def getitem_def leaf_B_def)
  have h6: "with_facets (length (node_calls empty_state)) (Request (JInt 2) (JStr ''q2'')) =
       Inr facet_response"
    by (simp add: with_facets_def)
  have h7: "first_filter facet_response = Inr facet_group"
    by (simp add: first_filter_def facet_response_def)
  have h8: "subscript facet_group ''name'' = Inr (JStr category_label)"
    by (simp add: facet_group_def)
  have h9: "subscript facet_group ''items'' = Inr (JList facet_items)"
    by (simp add: facet_group_def)
  have h10: "iterate (JList facet_items) = Inr facet_items" by simp
  have "map (facet_record (JStr ''B'') (0 + 2)) (filter has_id_and_name facet_items) =
          [record_X, record_Y]"
    by (simp add: facet_items_def has_id_and_name_def facet_record_def item_field_def
        record_X_def record_Y_def)
  with category_facet_items_appended
      [where aio_req = with_facets and s = empty_state, OF h1 h2 h3 h4 h5 h6 h7 h8 h9 h10]
  have "traverse_json with_facets [leaf_B] 0 empty_state =
       (None, \<lparr>flattened_catalogue = [record_B, record_X, record_Y],
               node_calls = [(leaf_B, 2)]\<rparr>)"
    by (simp add: empty_state_def)
  with h1 h2 h3 h4 h5 h6 h7 h8 h9 h10 show ?thesis by simp
qed


text \<open>
  C5: when the request of a leaf ends in a disconnection, or its response is not of the
  expected content type, or the response has no first facet group with the category label,
  \<^verbatim>\<open>node_json\<close> appends no record and raises nothing, and the walk goes on with the
  remaining nodes from the state with the record of the leaf alone.
\<close>

theorem failed_augmentation_is_empty:
  assumes "flat_entry leaf (level + 1) = Inr own"
    and "c_childs leaf = None"
    and "c_id leaf \<noteq> Some (JInt 130090)"
    and "url_loc leaf = Inr req"
    and "aio_req (length (node_calls s)) req = Inl ServerDisconnectedError
         \<or> aio_req (length (node_calls s)) req = Inl ContentTypeError
         \<or> (\<exists>response. aio_req (length (node_calls s)) req = Inr response
              \<and> first_label response \<noteq> Some (JStr category_label))"
  shows "node_json aio_req leaf (level + 2) s =
           (None, s\<lparr>node_calls := node_calls s @ [(leaf, level + 2)]\<rparr>)
       \<and> traverse_json aio_req (leaf # rest) level s =
           traverse_json aio_req rest level
             (s\<lparr>flattened_catalogue := flattened_catalogue s @ [own],
                node_calls := node_calls s @ [(leaf, level + 2)]\<rparr>)"
proof -
  from assms(1) obtain nm where nm: "getitem (c_name leaf) = Inr nm"
    by (auto dest: flat_entry_name)
  have nj: "node_json aio_req leaf (level + 2) t =
           (None, t\<lparr>node_calls := node_calls t @ [(leaf, level + 2)]\<rparr>)"
    if "node_calls t = node_calls s" for t
    using assms(4,5) nm that
    by (auto simp: node_json_def Let_def read_filters_none)
  show ?thesis
    using assms(1-3) nj [of s]
      nj [of "s\<lparr>flattened_catalogue := flattened_catalogue s @ [own]\<rparr>"]
    by (simp add: traverse_json_Cons visit_childs_def augment_leaf_def)
qed

theorem failed_augmentation_is_empty_witness:
  "flat_entry leaf_B (0 + 1) = Inr record_B
   \<and> c_childs leaf_B = None
   \<and> c_id leaf_B \<noteq> Some (JInt 130090)
   \<and> url_loc leaf_B = Inr (Request (JInt 2) (JStr ''q2''))
   \<and> disconnected (length (node_calls empty_state)) (Request (JInt 2) (JStr ''q2'')) =
       Inl ServerDisconnectedError
   \<and> node_json disconnected leaf_B (0 + 2) empty_state =
       (None, \<lparr>flattened_catalogue = [], node_calls = [(leaf_B, 2)]\<rparr>)
   \<and> traverse_json disconnected [leaf_B, redirect_leaf] 0 empty_state =
       (None, \<lparr>flattened_catalogue = [record_B, record_R1], node_calls = [(leaf_B, 2)]\<rparr>)"
proof -
  have h1: "flat_entry leaf_B (0 + 1) = Inr record_B"
    by (simp add: flat_entry_def getitem_def leaf_B_def record_B_def)
  have h2: "c_childs leaf_B = None" by (simp add: leaf_B_def)
  have h3: "c_id leaf_B \<noteq> Some (JInt 130090)" by (simp add: leaf_B_def)
  have h4: "url_loc leaf_B = Inr (Request (JInt 2) (JStr ''q2''))"
    by (simp add: url_loc_def getitem_def leaf_B_def)
  have h5: "disconnected (length (node_calls empty_state)) (Request (JInt 2) (JStr ''q2'')) =
       Inl ServerDisconnectedError"
    by (simp add: disconnected_def)
  have h5': "disconnected (length (node_calls empty_state)) (Request (JInt 2) (JStr ''q2'')) =
         Inl ServerDisconnectedError
       \<or> disconnected (length (node_calls empty_state)) (Request (JInt 2) (JStr ''q2'')) =
         Inl ContentTypeError
       \<or> (\<exists>response. disconnected (length (node_calls empty_state))
              (Request (JInt 2) (JStr ''q2'')) = Inr response
            \<and> first_label response \<noteq> Some (JStr category_label))"
    using h5 by simp
  have rest: "traverse_json disconnected [redirect_leaf] 0
                \<lparr>flattened_catalogue = [record_B], node_calls = [(leaf_B, 2)]\<rparr> =
              (None, \<lparr>flattened_catalogue = [record_B, record_R1],
                      node_calls = [(leaf_B, 2)]\<rparr>)"
    by (simp add: traverse_json_Cons visit_childs_def augment_leaf_def flat_entry_def
        getitem_def redirect_leaf_def record_R1_def)
  from failed_augmentation_is_empty
         [where aio_req = disconnected and s = empty_state and rest = "[redirect_leaf]",
          OF h1 h2 h3 h4 h5']
  have "node_json disconnected leaf_B (0 + 2) empty_state =
          (None, \<lparr>flattened_catalogue = [], node_calls = [(leaf_B, 2)]\<rparr>)
      \<and> traverse_json disconnected [leaf_B, redirect_leaf] 0 empty_state =
          (None, \<lparr>flattened_catalogue = [record_B, record_R1], node_calls = [(leaf_B, 2)]\<rparr>)"
    using rest by (simp add: empty_state_def)
  with h1 h2 h3 h4 h5 show ?thesis by simp
qed

section \<open>Order and levels\<close>

lemma facet_entry_augmented: "facet_entry category level info = Inr r \<Longrightarrow> augmented r"
  by (auto simp: facet_entry_def augmented_def split: sum.splits)

lemma append_items_plain: "plain (append_items category level infos fc) = plain fc"
  by (induction infos arbitrary: fc)
     (auto simp: plain_def split: sum.splits dest: facet_entry_augmented)

lemma read_filters_plain: "plain (read_filters category level response fc) = plain fc"
  by (auto simp: read_filters_def append_items_plain split: sum.splits)

lemma node_json_plain:
  "plain (flattened_catalogue (snd (node_json aio_req category level s))) =
   plain (flattened_catalogue s)"
  by (auto simp: node_json_def Let_def read_filters_plain split: sum.splits)

lemma augment_leaf_plain:
  "augment_leaf aio_req category level s = (e, s') \<Longrightarrow>
   plain (flattened_catalogue s') = plain (flattened_catalogue s)"
  using node_json_plain [of aio_req category level s]
  by (auto simp: augment_leaf_def split: if_splits)

lemma plain_append: "plain (xs @ ys) = plain xs @ plain ys"
  by (simp add: plain_def)

lemma traverse_json_plain:
  "traverse_json aio_req tree level s = (None, s') \<Longrightarrow>
   plain (flattened_catalogue s') =
   plain (flattened_catalogue s) @ map node_record (preorder (level + 1) tree)"
proof (induction tree arbitrary: level s s' rule: category_list_induct)
  case Nil
  then show ?case by simp
next
  case (Cons category rest)
  show ?case
  proof (cases "flat_entry category (level + 1)")
    case (Inl e)
    then have mal: "\<not> well_formed category"
      using flat_entry_well_formed [of category "level + 1"] by auto
    with Cons.prems have "traverse_json aio_req rest level s = (None, s')"
      by (simp add: traverse_malformed)
    from Cons.IH(2) [OF this] mal show ?thesis by simp
  next
    case (Inr r)
    then have wf: "well_formed category"
      using flat_entry_well_formed [of category "level + 1"] by auto
    define s1 where "s1 = s\<lparr>flattened_catalogue := flattened_catalogue s @ [r]\<rparr>"
    obtain e2 s2 where sub: "visit_childs aio_req category (level + 1) s1 = (e2, s2)"
      by (cases "visit_childs aio_req category (level + 1) s1")
    obtain e3 s3 where aug: "augment_leaf aio_req category (level + 2) s2 = (e3, s3)"
      by (cases "augment_leaf aio_req category (level + 2) s2")
    from Cons.prems Inr sub aug have e2: "e2 = None" and e3: "e3 = None"
      and rest: "traverse_json aio_req rest level s3 = (None, s')"
      by (auto simp: traverse_json_Cons s1_def split: option.splits)
    have p1: "plain (flattened_catalogue s1) = plain (flattened_catalogue s) @ [r]"
      using Inr by (simp add: s1_def plain_def flat_entry_not_augmented)
    have p2: "plain (flattened_catalogue s2) = plain (flattened_catalogue s1) @
        (case c_childs category of
           Some childs \<Rightarrow> map node_record (preorder (level + 1 + 1) childs)
         | None \<Rightarrow> [])"
    proof (cases "c_childs category")
      case None
      with sub show ?thesis by (simp add: visit_childs_def)
    next
      case (Some childs)
      with sub e2 have "traverse_json aio_req childs (level + 1) s1 = (None, s2)"
        by (simp add: visit_childs_def)
      from Cons.IH(1) [OF Some this] Some show ?thesis by simp
    qed
    have p3: "plain (flattened_catalogue s3) = plain (flattened_catalogue s2)"
      using aug by (rule augment_leaf_plain)
    have p4: "plain (flattened_catalogue s') =
        plain (flattened_catalogue s3) @ map node_record (preorder (level + 1) rest)"
      using rest by (rule Cons.IH(2))
    show ?thesis
      using p1 p2 p3 p4 wf Inr
      by (simp add: node_record_def split: option.splits)
  qed
qed

lemma process_catalogue_plain:
  "process_catalogue aio_req tree = Inr out \<Longrightarrow> plain out = map node_record (preorder 0 tree)"
proof -
  assume "process_catalogue aio_req tree = Inr out"
  then have "traverse_json aio_req tree (- 1) \<lparr>flattened_catalogue = [], node_calls = []\<rparr> =
      (None, \<lparr>flattened_catalogue = out, node_calls =
         node_calls (snd (traverse_json aio_req tree (- 1)
            \<lparr>flattened_catalogue = [], node_calls = []\<rparr>))\<rparr>)"
    by (auto simp: process_catalogue_def split: prod.splits option.splits)
  from traverse_json_plain [OF this] show ?thesis by (simp add: plain_def)
qed

lemma preorder_well_formed:
  "cd \<in> set (preorder depth tree) \<Longrightarrow> well_formed (fst cd)"
proof (induction tree arbitrary: depth rule: category_list_induct)
  case Nil
  then show ?case by simp
next
  case (Cons category rest)
  show ?case
  proof (cases "c_childs category")
    case None
    with Cons.prems Cons.IH(2) show ?thesis by (auto split: if_splits)
  next
    case (Some childs)
    with Cons.prems Cons.IH(2) Cons.IH(1) [OF Some] show ?thesis
      by (auto split: if_splits)
  qed
qed

text \<open>On a tree whose nodes are all well formed the traversal has every node.\<close>

lemma preorder_all_nodes:
  "\<forall>cd \<in> set (all_nodes depth tree). well_formed (fst cd) \<Longrightarrow>
   preorder depth tree = all_nodes depth tree"
proof (induction tree arbitrary: depth rule: category_list_induct)
  case Nil
  then show ?case by simp
next
  case (Cons category rest)
  show ?case
  proof (cases "c_childs category")
    case None
    with Cons.prems Cons.IH(2) [of depth] show ?thesis by simp
  next
    case (Some childs)
    with Cons.prems Cons.IH(2) [of depth] Cons.IH(1) [OF Some, of "depth + 1"]
    show ?thesis by simp
  qed
qed

lemma node_record_level:
  "well_formed (fst cd) \<Longrightarrow> map_of (node_record cd) ''level'' = Some (JInt (snd cd))"
  using flat_entry_well_formed [of "fst cd" "snd cd"]
  by (auto simp: node_record_def flat_entry_level)

lemma preorder_level:
  "map (\<lambda>r. map_of r ''level'') (map node_record (preorder depth tree)) =
   map (\<lambda>cd. Some (JInt (snd cd))) (preorder depth tree)"
  by (simp add: preorder_well_formed node_record_level)

text \<open>
  C1: whenever the run returns a catalogue, its non-augmented records are, in this order,
  the records of the pre-order traversal of the well-formed nodes of the tree: each node,
  then its subtree, then its later siblings. The nodes below a malformed node are not part
  of the traversal.
\<close>

theorem plain_records_in_preorder:
  assumes "process_catalogue aio_req tree = Inr out"
  shows "filter (\<lambda>r. \<not> augmented r) out = map node_record (preorder 0 tree)"
  using process_catalogue_plain [OF assms] by (simp add: plain_def)

theorem plain_records_in_preorder_witness:
  "process_catalogue with_facets [node_A] = Inr [record_A, record_B, record_X, record_Y]
   \<and> filter (\<lambda>r. \<not> augmented r) [record_A, record_B, record_X, record_Y] =
       [record_A, record_B]
   \<and> map node_record (preorder 0 [node_A]) = [record_A, record_B]"
proof -
  have h: "process_catalogue with_facets [node_A] =
             Inr [record_A, record_B, record_X, record_Y]"
    by (simp add: run_defs sample_defs)
  have p: "map node_record (preorder 0 [node_A]) = [record_A, record_B]"
    by (simp add: node_record_def well_formed_def flat_entry_def getitem_def sample_defs)
  from plain_records_in_preorder [OF h] h p show ?thesis by simp
qed

text \<open>
  C2: whenever the run returns a catalogue, its non-augmented part has as many records as
  the tree has well-formed nodes, and the \<^verbatim>\<open>level\<close> of each is the depth of its node: 0
  for the nodes of the top list, one more for each nesting.
\<close>

theorem plain_records_count_and_levels:
  assumes "process_catalogue aio_req tree = Inr out"
  shows "length (plain out) = length (preorder 0 tree)
       \<and> map (\<lambda>r. map_of r ''level'') (plain out) =
           map (\<lambda>cd. Some (JInt (snd cd))) (preorder 0 tree)"
  using process_catalogue_plain [OF assms] preorder_level [of 0 tree] by simp

theorem plain_records_count_and_levels_witness:
  "process_catalogue with_facets [node_A] = Inr [record_A, record_B, record_X, record_Y]
   \<and> preorder 0 [node_A] = [(node_A, 0), (leaf_B, 1)]
   \<and> plain [record_A, record_B, record_X, record_Y] = [record_A, record_B]
   \<and> map (\<lambda>r. map_of r ''level'') [record_A, record_B] = [Some (JInt 0), Some (JInt 1)]"
proof -
  have h: "process_catalogue with_facets [node_A] =
             Inr [record_A, record_B, record_X, record_Y]"
    by (simp add: run_defs sample_defs)
  have p: "preorder 0 [node_A] = [(node_A, 0), (leaf_B, 1)]"
    by (simp add: well_formed_def sample_defs)
  have q: "plain [record_A, record_B, record_X, record_Y] = [record_A, record_B]"
    by (simp add: plain_def augmented_def sample_defs)
  from plain_records_count_and_levels [OF h] h p q show ?thesis by simp
qed

section \<open>Runs that return\<close>

lemma node_json_returns:
  assumes "c_name category \<noteq> None" and "c_shard category \<noteq> None"
    and "c_query category \<noteq> None"
    and "\<forall>i req e. aio_req i req = Inl e \<longrightarrow> e = ServerDisconnectedError \<or> e = ContentTypeError"
  shows "fst (node_json aio_req category level s) = None"
  using assms
  by (auto simp: node_json_def Let_def getitem_def url_loc_def split: sum.splits option.splits)

lemma traverse_json_returns:
  assumes "\<forall>cd \<in> set (preorder (level + 1) tree).
             c_childs (fst cd) = None \<and> c_id (fst cd) \<noteq> Some (JInt 130090) \<longrightarrow>
             c_shard (fst cd) \<noteq> None"
    and "\<forall>i req e. aio_req i req = Inl e \<longrightarrow> e = ServerDisconnectedError \<or> e = ContentTypeError"
  shows "fst (traverse_json aio_req tree level s) = None"
  using assms(1)
proof (induction tree arbitrary: level s rule: category_list_induct)
  case Nil
  then show ?case by simp
next
  case (Cons category rest)
  show ?case
  proof (cases "well_formed category")
    case False
    with Cons.prems Cons.IH(2) [of level s] show ?thesis
      by (simp add: traverse_malformed)
  next
    case True
    then obtain r where r: "flat_entry category (level + 1) = Inr r"
      using flat_entry_well_formed [of category "level + 1"] by auto
    define s1 where "s1 = s\<lparr>flattened_catalogue := flattened_catalogue s @ [r]\<rparr>"
    obtain e2 s2 where sub: "visit_childs aio_req category (level + 1) s1 = (e2, s2)"
      by (cases "visit_childs aio_req category (level + 1) s1")
    obtain e3 s3 where aug: "augment_leaf aio_req category (level + 2) s2 = (e3, s3)"
      by (cases "augment_leaf aio_req category (level + 2) s2")
    have e2: "e2 = None"
    proof (cases "c_childs category")
      case None
      with sub show ?thesis by (simp add: visit_childs_def)
    next
      case (Some childs)
      from Cons.prems True Some
      have "\<forall>cd \<in> set (preorder (level + 1 + 1) childs).
             c_childs (fst cd) = None \<and> c_id (fst cd) \<noteq> Some (JInt 130090) \<longrightarrow>
             c_shard (fst cd) \<noteq> None"
        by simp
      from Cons.IH(1) [OF Some this, of s1] sub Some show ?thesis
        by (simp add: visit_childs_def)
    qed
    have e3: "e3 = None"
    proof (cases "c_childs category = None \<and> c_id category \<noteq> Some (JInt 130090)")
      case False
      with aug show ?thesis by (auto simp: augment_leaf_def)
    next
      case leaf: True
      with Cons.prems True have "c_shard category \<noteq> None" by simp
      with True node_json_returns [of category aio_req "level + 2" s2] assms(2) aug leaf
      show ?thesis by (auto simp: augment_leaf_def well_formed_def)
    qed
    from Cons.prems have "\<forall>cd \<in> set (preorder (level + 1) rest).
             c_childs (fst cd) = None \<and> c_id (fst cd) \<noteq> Some (JInt 130090) \<longrightarrow>
             c_shard (fst cd) \<noteq> None"
      by simp
    from Cons.IH(2) [OF this, of s3] r sub aug e2 e3 show ?thesis
      by (simp add: traverse_json_Cons s1_def)
  qed
qed

lemma process_catalogue_returns:
  assumes "\<forall>cd \<in> set (preorder 0 tree).
             c_childs (fst cd) = None \<and> c_id (fst cd) \<noteq> Some (JInt 130090) \<longrightarrow>
             c_shard (fst cd) \<noteq> None"
    and "\<forall>i req e. aio_req i req = Inl e \<longrightarrow> e = ServerDisconnectedError \<or> e = ContentTypeError"
  shows "\<exists>out. process_catalogue aio_req tree = Inr out"
proof -
  from assms(1) have "\<forall>cd \<in> set (preorder (- 1 + 1) tree).
             c_childs (fst cd) = None \<and> c_id (fst cd) \<noteq> Some (JInt 130090) \<longrightarrow>
             c_shard (fst cd) \<noteq> None"
    by simp
  from traverse_json_returns
         [OF this assms(2), of "\<lparr>flattened_catalogue = [], node_calls = []\<rparr>"]
  show ?thesis
    by (auto simp: process_catalogue_def split: prod.splits option.splits)
qed

section \<open>The log of the calls\<close>

lemma node_json_calls:
  "node_calls (snd (node_json aio_req category level s)) = node_calls s @ [(category, level)]"
  by (auto simp: node_json_def Let_def split: sum.splits)

lemma augment_leaf_calls:
  "\<exists>cs. node_calls (snd (augment_leaf aio_req category level s)) = node_calls s @ cs"
  by (simp add: augment_leaf_def node_json_calls)

lemma traverse_json_calls:
  "\<exists>cs. node_calls (snd (traverse_json aio_req tree level s)) = node_calls s @ cs"
proof (induction tree arbitrary: level s rule: category_list_induct)
  case Nil
  then show ?case by simp
next
  case (Cons category rest)
  show ?case
  proof (cases "flat_entry category (level + 1)")
    case (Inl e)
    with Cons.IH(2) [of level s] show ?thesis
      by (simp add: traverse_json_Cons)
  next
    case (Inr r)
    define s1 where "s1 = s\<lparr>flattened_catalogue := flattened_catalogue s @ [r]\<rparr>"
    obtain e2 s2 where sub: "visit_childs aio_req category (level + 1) s1 = (e2, s2)"
      by (cases "visit_childs aio_req category (level + 1) s1")
    obtain e3 s3 where aug: "augment_leaf aio_req category (level + 2) s2 = (e3, s3)"
      by (cases "augment_leaf aio_req category (level + 2) s2")
    have "\<exists>cs. node_calls s2 = node_calls s1 @ cs"
    proof (cases "c_childs category")
      case None
      with sub show ?thesis by (simp add: visit_childs_def)
    next
      case (Some childs)
      with Cons.IH(1) [OF Some, of "level + 1" s1] sub show ?thesis
        by (simp add: visit_childs_def)
    qed
    then obtain cs2 where c2: "node_calls s2 = node_calls s @ cs2"
      by (auto simp: s1_def)
    from augment_leaf_calls [of aio_req category "level + 2" s2] aug
    obtain cs3 where c3: "node_calls s3 = node_calls s2 @ cs3" by auto
    from Cons.IH(2) [of level s3]
    obtain cs4 where c4: "node_calls (snd (traverse_json aio_req rest level s3)) =
                            node_calls s3 @ cs4" by auto
    show ?thesis
      using Inr sub aug c2 c3 c4
      by (auto simp: traverse_json_Cons s1_def split: option.splits)
  qed
qed

section \<open>Networks that answer alike\<close>

lemma same_answers_prefix:
  "same_answers net1 net2 (xs @ ys) \<Longrightarrow> same_answers net1 net2 xs"
  by (auto simp: same_answers_def nth_append split: sum.splits)

lemma node_json_same_answers:
  assumes "same_answers net1 net2 (node_calls s @ [(category, level)])"
  shows "node_json net2 category level s = node_json net1 category level s"
proof (cases "url_loc category")
  case (Inl e)
  then show ?thesis by (simp add: node_json_def Let_def split: sum.splits)
next
  case (Inr req)
  with assms have "net2 (length (node_calls s)) req = net1 (length (node_calls s)) req"
    by (auto simp: same_answers_def dest!: spec [of _ "length (node_calls s)"])
  with Inr show ?thesis by (simp add: node_json_def Let_def split: sum.splits)
qed

lemma traverse_json_same_answers:
  "same_answers net1 net2 (node_calls (snd (traverse_json net1 tree level s))) \<Longrightarrow>
   traverse_json net2 tree level s = traverse_json net1 tree level s"
proof (induction tree arbitrary: level s rule: category_list_induct)
  case Nil
  then show ?case by simp
next
  case (Cons category rest)
  show ?case
  proof (cases "flat_entry category (level + 1)")
    case (Inl e)
    with Cons.prems Cons.IH(2) [of level s] show ?thesis
      by (auto simp: traverse_json_Cons split: if_splits)
  next
    case (Inr r)
    define s1 where "s1 = s\<lparr>flattened_catalogue := flattened_catalogue s @ [r]\<rparr>"
    obtain e2 s2 where sub: "visit_childs net1 category (level + 1) s1 = (e2, s2)"
      by (cases "visit_childs net1 category (level + 1) s1")
    obtain e3 s3 where aug: "augment_leaf net1 category (level + 2) s2 = (e3, s3)"
      by (cases "augment_leaf net1 category (level + 2) s2")
    let ?final = "traverse_json net1 (category # rest) level s"
    from augment_leaf_calls [of net1 category "level + 2" s2] aug
    obtain cs3 where c3: "node_calls s3 = node_calls s2 @ cs3" by auto
    from traverse_json_calls [of net1 rest level s3]
    obtain cs4 where c4: "node_calls (snd (traverse_json net1 rest level s3)) =
                            node_calls s3 @ cs4" by auto
    have final: "?final = (case e2 of Some e \<Rightarrow> (Some e, s2) | None \<Rightarrow>
                   (case e3 of Some e \<Rightarrow> (Some e, s3) | None \<Rightarrow>
                      traverse_json net1 rest level s3))"
      using Inr sub aug unfolding s1_def by (rule traverse_json_step)
    have "\<exists>cs. node_calls (snd ?final) = node_calls s2 @ cs"
      using c3 c4 by (auto simp: final split: option.splits)
    with Cons.prems have a2: "same_answers net1 net2 (node_calls s2)"
      by (auto dest: same_answers_prefix)
    have sub2: "visit_childs net2 category (level + 1) s1 = (e2, s2)"
    proof (cases "c_childs category")
      case None
      with sub show ?thesis by (simp add: visit_childs_def)
    next
      case (Some childs)
      with sub have "traverse_json net1 childs (level + 1) s1 = (e2, s2)"
        by (simp add: visit_childs_def)
      with a2 Cons.IH(1) [OF Some, of "level + 1" s1] Some show ?thesis
        by (simp add: visit_childs_def)
    qed
    show ?thesis
    proof (cases e2)
      case (Some e)
      with Inr sub sub2 show ?thesis by (simp add: traverse_json_Cons s1_def)
    next
      case None
      have "\<exists>cs. node_calls (snd ?final) = node_calls s3 @ cs"
        using c4 None by (auto simp: final split: option.splits)
      with Cons.prems have a3: "same_answers net1 net2 (node_calls s3)"
        by (auto dest: same_answers_prefix)
      have aug2: "augment_leaf net2 category (level + 2) s2 = (e3, s3)"
      proof (cases "c_childs category = None \<and> c_id category \<noteq> Some (JInt 130090)")
        case False
        with aug show ?thesis by (auto simp: augment_leaf_def)
      next
        case True
        with aug have nj: "node_json net1 category (level + 2) s2 = (e3, s3)"
          by (simp add: augment_leaf_def)
        with node_json_calls [of net1 category "level + 2" s2]
        have "node_calls s3 = node_calls s2 @ [(category, level + 2)]" by simp
        with a3 node_json_same_answers [of net1 net2 s2 category "level + 2"] nj True
        show ?thesis by (simp add: augment_leaf_def)
      qed
      show ?thesis
      proof (cases e3)
        case (Some e)
        with None Inr sub sub2 aug aug2 show ?thesis
          by (simp add: traverse_json_Cons s1_def)
      next
        case e3: None
        with None Cons.prems have "same_answers net1 net2
               (node_calls (snd (traverse_json net1 rest level s3)))"
          by (simp add: final)
        from Cons.IH(2) [OF this] None e3 Inr sub sub2 aug aug2 show ?thesis
          by (simp add: traverse_json_Cons s1_def)
      qed
    qed
  qed
qed

text \<open>
  C8: the catalogue is determined by the tree and by the answers to the requests the run
  issues: two networks that give the same outcome for the request of each call of
  \<^verbatim>\<open>node_json\<close> of the run give the same result, record for record (and the same
  exception, if one is raised). In particular two runs with the same tree and network agree.
\<close>


theorem answers_determine_catalogue:
  assumes "\<forall>i < length (augmentation_calls net1 tree). \<forall>req.
             url_loc (fst (augmentation_calls net1 tree ! i)) = Inr req \<longrightarrow>
             net2 i req = net1 i req"
  shows "process_catalogue net2 tree = process_catalogue net1 tree"
proof -
  from assms have "same_answers net1 net2 (augmentation_calls net1 tree)"
    by (auto simp: same_answers_def split: sum.splits)
  then have "traverse_json net2 tree (- 1) \<lparr>flattened_catalogue = [], node_calls = []\<rparr> =
             traverse_json net1 tree (- 1) \<lparr>flattened_catalogue = [], node_calls = []\<rparr>"
    unfolding augmentation_calls_def by (rule traverse_json_same_answers)
  then show ?thesis by (simp add: process_catalogue_def)
qed

theorem answers_determine_catalogue_witness:
  "augmentation_calls with_facets [node_A] = [(leaf_B, 2)]
   \<and> fail_at 5 with_facets 0 (Request (JInt 2) (JStr ''q2'')) =
       with_facets 0 (Request (JInt 2) (JStr ''q2''))
   \<and> fail_at 5 with_facets 5 (Request (JInt 2) (JStr ''q2'')) = Inl ServerDisconnectedError
   \<and> with_facets 5 (Request (JInt 2) (JStr ''q2'')) = Inr facet_response
   \<and> process_catalogue (fail_at 5 with_facets) [node_A] =
       process_catalogue with_facets [node_A]
   \<and> process_catalogue with_facets [node_A] =
       Inr [record_A, record_B, record_X, record_Y]"
proof -
  have calls: "augmentation_calls with_facets [node_A] = [(leaf_B, 2)]"
    by (simp add: augmentation_calls_def run_defs sample_defs)
  have h: "\<forall>i < length (augmentation_calls with_facets [node_A]). \<forall>req.
             url_loc (fst (augmentation_calls with_facets [node_A] ! i)) = Inr req \<longrightarrow>
             fail_at 5 with_facets i req = with_facets i req"
    unfolding calls by (simp add: fail_at_def)
  have r: "process_catalogue with_facets [node_A] =
             Inr [record_A, record_B, record_X, record_Y]"
    by (simp add: run_defs sample_defs)
  have f: "fail_at 5 with_facets 0 (Request (JInt 2) (JStr ''q2'')) =
             with_facets 0 (Request (JInt 2) (JStr ''q2''))"
    "fail_at 5 with_facets 5 (Request (JInt 2) (JStr ''q2'')) = Inl ServerDisconnectedError"
    "with_facets 5 (Request (JInt 2) (JStr ''q2'')) = Inr facet_response"
    by (simp_all add: fail_at_def with_facets_def)
  from answers_determine_catalogue [OF h] calls r f show ?thesis
    by simp
qed

section \<open>A failure at one call\<close>

lemma append_items_append:
  "append_items category level infos fc = fc @ append_items category level infos []"
proof (induction infos arbitrary: fc)
  case Nil
  show ?case by simp
next
  case (Cons info infos)
  show ?case
  proof (cases "facet_entry category level info")
    case (Inl e)
    with Cons [of fc] show ?thesis by simp
  next
    case (Inr r)
    with Cons [of "fc @ [r]"] Cons [of "[r]"] show ?thesis by simp
  qed
qed

lemma read_filters_append:
  "read_filters category level response fc = fc @ read_filters category level response []"
  using append_items_append [of category level _ fc]
  by (auto simp: read_filters_def split: sum.splits)

lemma node_json_eq:
  "node_json aio_req category level s =
     (call_exn aio_req (length (node_calls s)) category,
      s\<lparr>node_calls := node_calls s @ [(category, level)],
        flattened_catalogue := flattened_catalogue s @
          call_facets aio_req (length (node_calls s)) (category, level)\<rparr>)"
  using read_filters_append [of category level _ "flattened_catalogue s"]
  by (auto simp: node_json_def call_exn_def call_facets_def Let_def split: sum.splits)

lemma call_exn_same: "netb n = neta n \<Longrightarrow> call_exn netb n category = call_exn neta n category"
  by (simp only: call_exn_def)

lemma call_facets_same: "netb n = neta n \<Longrightarrow> call_facets netb n call = call_facets neta n call"
  by (simp only: call_facets_def)

lemma leaf_facets_short: "length calls \<le> k \<Longrightarrow> leaf_facets aio_req k calls = []"
  by (simp add: leaf_facets_def)

lemma leaf_facets_stable:
  "k < length calls \<Longrightarrow> leaf_facets aio_req k (calls @ later) = leaf_facets aio_req k calls"
  by (simp add: leaf_facets_def nth_append)

lemma isolated_extend:
  assumes "isolated k net1 s1 s2"
    and "flattened_catalogue s1' = flattened_catalogue s1 @ xs"
    and "flattened_catalogue s2' = flattened_catalogue s2 @ xs"
    and "node_calls s1' = node_calls s1 @ cs"
    and "node_calls s2' = node_calls s2 @ cs"
    and "length (node_calls s1) + length cs \<le> k \<or> k < length (node_calls s1)"
  shows "isolated k net1 s1' s2'"
proof -
  from assms(1) obtain pre post where
    c: "node_calls s2 = node_calls s1"
    and f1: "flattened_catalogue s1 = pre @ leaf_facets net1 k (node_calls s1) @ post"
    and f2: "flattened_catalogue s2 = pre @ post"
    and b: "length (node_calls s1) \<le> k \<longrightarrow> post = []"
    by (auto simp: isolated_def)
  from assms(6) show ?thesis
  proof
    assume le: "length (node_calls s1) + length cs \<le> k"
    then have "leaf_facets net1 k (node_calls s1) = []" "leaf_facets net1 k (node_calls s1') = []"
      "post = []"
      using b assms(4) by (simp_all add: leaf_facets_short)
    with f1 f2 assms(2-5) c le have
      "flattened_catalogue s1' = (pre @ xs) @ leaf_facets net1 k (node_calls s1') @ []"
      "flattened_catalogue s2' = (pre @ xs) @ []" "node_calls s2' = node_calls s1'"
      by simp_all
    then show ?thesis unfolding isolated_def by blast
  next
    assume lt: "k < length (node_calls s1)"
    then have "leaf_facets net1 k (node_calls s1') = leaf_facets net1 k (node_calls s1)"
      using assms(4) by (simp add: leaf_facets_stable)
    with f1 f2 assms(2-5) c lt have
      "flattened_catalogue s1' = pre @ leaf_facets net1 k (node_calls s1') @ (post @ xs)"
      "flattened_catalogue s2' = pre @ (post @ xs)" "node_calls s2' = node_calls s1'"
      "\<not> length (node_calls s1') \<le> k"
      by simp_all
    then show ?thesis unfolding isolated_def by blast
  qed
qed

lemma node_json_isolated:
  assumes a1: "\<forall>i req. i \<noteq> k \<longrightarrow> net2 i req = net1 i req"
    and a2: "\<forall>req. net2 k req = Inl ServerDisconnectedError"
    and iso: "isolated k net1 s1 s2"
    and run: "node_json net1 category level s1 = (None, s1')"
  shows "\<exists>s2'. node_json net2 category level s2 = (None, s2') \<and> isolated k net1 s1' s2'"
proof -
  let ?n = "length (node_calls s1)"
  from iso have c: "node_calls s2 = node_calls s1" by (simp add: isolated_def)
  from run have ex1: "call_exn net1 ?n category = None"
    and s1': "s1' = s1\<lparr>node_calls := node_calls s1 @ [(category, level)],
        flattened_catalogue := flattened_catalogue s1 @ call_facets net1 ?n (category, level)\<rparr>"
    by (simp_all add: node_json_eq)
  define s2' where "s2' = s2\<lparr>node_calls := node_calls s2 @ [(category, level)],
        flattened_catalogue := flattened_catalogue s2 @ call_facets net2 ?n (category, level)\<rparr>"
  show ?thesis
  proof (cases "?n = k")
    case False
    with a1 have same: "net2 ?n = net1 ?n" by auto
    have "call_exn net2 ?n category = None"
      "call_facets net2 ?n (category, level) = call_facets net1 ?n (category, level)"
      using ex1 same call_exn_same [of net2 "?n" net1 category]
        call_facets_same [of net2 "?n" net1 "(category, level)"]
      by simp_all
    then have nj: "node_json net2 category level s2 = (None, s2')"
      by (simp add: node_json_eq c s2'_def)
    from False have "?n + length [(category, level)] \<le> k \<or> k < ?n" by auto
    from isolated_extend [OF iso _ _ _ _ this, of s1' "call_facets net1 ?n (category, level)" s2']
    have "isolated k net1 s1' s2'"
      using \<open>call_facets net2 ?n (category, level) = call_facets net1 ?n (category, level)\<close>
      by (simp add: s1' s2'_def)
    with nj show ?thesis by blast
  next
    case True
    from ex1 a2 True have "call_exn net2 ?n category = None"
      by (auto simp: call_exn_def split: sum.splits)
    moreover from a2 True have nf: "call_facets net2 ?n (category, level) = []"
      by (auto simp: call_facets_def split: sum.splits)
    ultimately have nj: "node_json net2 category level s2 = (None, s2')"
      by (simp add: node_json_eq c s2'_def)
    from iso True obtain pre where
      f1: "flattened_catalogue s1 = pre" and f2: "flattened_catalogue s2 = pre"
      by (auto simp: isolated_def leaf_facets_short)
    have lf: "leaf_facets net1 k (node_calls s1') = call_facets net1 ?n (category, level)"
      using True by (auto simp: s1' leaf_facets_def nth_append)
    have "flattened_catalogue s1' = pre @ leaf_facets net1 k (node_calls s1') @ []"
      "flattened_catalogue s2' = pre @ []" "node_calls s2' = node_calls s1'"
      "\<not> length (node_calls s1') \<le> k"
      using f1 f2 lf nf c True by (simp_all add: s1' s2'_def)
    then have "isolated k net1 s1' s2'" unfolding isolated_def by blast
    with nj show ?thesis by blast
  qed
qed

lemma traverse_json_isolated:
  assumes a1: "\<forall>i req. i \<noteq> k \<longrightarrow> net2 i req = net1 i req"
    and a2: "\<forall>req. net2 k req = Inl ServerDisconnectedError"
  shows "isolated k net1 s1 s2 \<Longrightarrow> traverse_json net1 tree level s1 = (None, s1') \<Longrightarrow>
         \<exists>s2'. traverse_json net2 tree level s2 = (None, s2') \<and> isolated k net1 s1' s2'"
proof (induction tree arbitrary: level s1 s2 s1' rule: category_list_induct)
  case Nil
  then show ?case by simp
next
  case (Cons category rest)
  show ?case
  proof (cases "flat_entry category (level + 1)")
    case (Inl e)
    then have mal: "\<not> well_formed category"
      using flat_entry_well_formed [of category "level + 1"] by auto
    with Cons.prems(2) have "traverse_json net1 rest level s1 = (None, s1')"
      by (simp add: traverse_malformed)
    from Cons.IH(2) [OF Cons.prems(1) this] mal show ?thesis
      by (simp add: traverse_malformed)
  next
    case (Inr r)
    define t1 where "t1 = s1\<lparr>flattened_catalogue := flattened_catalogue s1 @ [r]\<rparr>"
    define t2 where "t2 = s2\<lparr>flattened_catalogue := flattened_catalogue s2 @ [r]\<rparr>"
    obtain e2 u1 where sub: "visit_childs net1 category (level + 1) t1 = (e2, u1)"
      by (cases "visit_childs net1 category (level + 1) t1")
    obtain e3 v1 where aug: "augment_leaf net1 category (level + 2) u1 = (e3, v1)"
      by (cases "augment_leaf net1 category (level + 2) u1")
    from traverse_json_step [OF Inr sub [unfolded t1_def] aug, of rest] Cons.prems(2)
    have e2: "e2 = None" and e3: "e3 = None"
      and rest: "traverse_json net1 rest level v1 = (None, s1')"
      by (auto split: option.splits)
    have "length (node_calls s1) + length ([]::(category \<times> int) list) \<le> k
          \<or> k < length (node_calls s1)" by auto
    from isolated_extend [OF Cons.prems(1) _ _ _ _ this, of t1 "[r]" t2]
    have it: "isolated k net1 t1 t2" by (simp add: t1_def t2_def)
    have "\<exists>u2. visit_childs net2 category (level + 1) t2 = (None, u2) \<and> isolated k net1 u1 u2"
    proof (cases "c_childs category")
      case None
      with sub it show ?thesis by (auto simp: visit_childs_def)
    next
      case (Some childs)
      with sub e2 have "traverse_json net1 childs (level + 1) t1 = (None, u1)"
        by (simp add: visit_childs_def)
      from Cons.IH(1) [OF Some it this] Some show ?thesis
        by (simp add: visit_childs_def)
    qed
    then obtain u2 where sub2: "visit_childs net2 category (level + 1) t2 = (None, u2)"
      and iu: "isolated k net1 u1 u2" by blast
    have "\<exists>v2. augment_leaf net2 category (level + 2) u2 = (None, v2) \<and> isolated k net1 v1 v2"
    proof (cases "c_childs category = None \<and> c_id category \<noteq> Some (JInt 130090)")
      case False
      with aug iu show ?thesis by (auto simp: augment_leaf_def)
    next
      case True
      with aug e3 have "node_json net1 category (level + 2) u1 = (None, v1)"
        by (simp add: augment_leaf_def)
      from node_json_isolated [OF a1 a2 iu this] True show ?thesis
        by (simp add: augment_leaf_def)
    qed
    then obtain v2 where aug2: "augment_leaf net2 category (level + 2) u2 = (None, v2)"
      and iv: "isolated k net1 v1 v2" by blast
    from Cons.IH(2) [OF iv rest] obtain s2' where
      "traverse_json net2 rest level v2 = (None, s2')" "isolated k net1 s1' s2'" by blast
    with traverse_json_step [OF Inr sub2 [unfolded t2_def] aug2, of rest]
    show ?thesis by simp
  qed
qed

text \<open>
  C7: let a second network answer as the first, except that the request of the \<open>k\<close>-th call
  of \<^verbatim>\<open>node_json\<close> ends in a disconnection. If the first run returns a catalogue, so does
  the second, and it is the first catalogue without the augmented records of that call:
  all other records are the same and in the same order, and the calls are the same.
\<close>


theorem transient_failure_isolated:
  assumes "\<forall>i req. i \<noteq> k \<longrightarrow> net2 i req = net1 i req"
    and "\<forall>req. net2 k req = Inl ServerDisconnectedError"
    and "process_catalogue net1 tree = Inr out1"
  shows "\<exists>pre post.
           out1 = pre @ leaf_facets net1 k (augmentation_calls net1 tree) @ post
         \<and> process_catalogue net2 tree = Inr (pre @ post)
         \<and> augmentation_calls net2 tree = augmentation_calls net1 tree"
proof -
  let ?s0 = "\<lparr>flattened_catalogue = [], node_calls = []\<rparr>"
  obtain e s1 where r1: "traverse_json net1 tree (- 1) ?s0 = (e, s1)"
    by (cases "traverse_json net1 tree (- 1) ?s0")
  with assms(3) have e: "e = None" and out1: "flattened_catalogue s1 = out1"
    by (auto simp: process_catalogue_def split: option.splits)
  have "isolated k net1 ?s0 ?s0"
    by (simp add: isolated_def leaf_facets_def)
  from traverse_json_isolated [OF assms(1,2) this r1 [unfolded e]]
  obtain s2 where r2: "traverse_json net2 tree (- 1) ?s0 = (None, s2)"
    and iso: "isolated k net1 s1 s2" by blast
  from iso obtain pre post where
    "node_calls s2 = node_calls s1"
    "flattened_catalogue s1 = pre @ leaf_facets net1 k (node_calls s1) @ post"
    "flattened_catalogue s2 = pre @ post"
    by (auto simp: isolated_def)
  with r1 r2 out1 show ?thesis
    by (auto simp: process_catalogue_def augmentation_calls_def)
qed

theorem transient_failure_isolated_witness:
  "process_catalogue with_facets [node_A, leaf_C] =
     Inr [record_A, record_B, record_X, record_Y, record_C, record_XC, record_YC]
   \<and> leaf_facets with_facets 0 (augmentation_calls with_facets [node_A, leaf_C]) =
       [record_X, record_Y]
   \<and> process_catalogue (fail_at 0 with_facets) [node_A, leaf_C] =
       Inr [record_A, record_B, record_C, record_XC, record_YC]
   \<and> (\<exists>pre post.
         [record_A, record_B, record_X, record_Y, record_C, record_XC, record_YC] =
           pre @ leaf_facets with_facets 0 (augmentation_calls with_facets [node_A, leaf_C])
               @ post
       \<and> process_catalogue (fail_at 0 with_facets) [node_A, leaf_C] = Inr (pre @ post)
       \<and> augmentation_calls (fail_at 0 with_facets) [node_A, leaf_C] =
           augmentation_calls with_facets [node_A, leaf_C])"
proof -
  have h1: "\<forall>i req. i \<noteq> 0 \<longrightarrow> fail_at 0 with_facets i req = with_facets i req"
    by (simp add: fail_at_def)
  have h2: "\<forall>req. fail_at 0 with_facets 0 req = Inl ServerDisconnectedError"
    by (simp add: fail_at_def)
  have h3: "process_catalogue with_facets [node_A, leaf_C] =
     Inr [record_A, record_B, record_X, record_Y, record_C, record_XC, record_YC]"
    by (simp add: run_defs sample_defs)
  have calls: "augmentation_calls with_facets [node_A, leaf_C] = [(leaf_B, 2), (leaf_C, 1)]"
    by (simp add: augmentation_calls_def run_defs sample_defs)
  have lf: "leaf_facets with_facets 0 (augmentation_calls with_facets [node_A, leaf_C]) =
       [record_X, record_Y]"
    unfolding calls
    by (simp add: leaf_facets_def call_facets_def run_defs sample_defs)
  have r2: "process_catalogue (fail_at 0 with_facets) [node_A, leaf_C] =
       Inr [record_A, record_B, record_C, record_XC, record_YC]"
    by (simp add: run_defs sample_defs)
  from transient_failure_isolated [OF h1 h2 h3] h3 lf r2 show ?thesis by simp
qed

end
